theory Spec2Isabelle
  imports Complex_Main "HOL-Library.Log_Nat" "HOL-Library.Monad_Syntax"
begin

section \<open>The tone field endpoint of \<^verbatim>\<open>src/backend/main.py\<close>\<close>

text \<open>
  The handler \<^verbatim>\<open>get_field(tension, frequency)\<close> builds a 50 x 50 grid over
  \<open>[-1, 1] \<times> [-1, 1]\<close>, evaluates a radial cosine wave on it with numpy and returns the
  flattened grid together with the grid size and the two inputs.

  Numbers. Python's \<^verbatim>\<open>float\<close> and numpy's \<^verbatim>\<open>float64\<close> are modelled by \<open>real\<close>,
  \<^verbatim>\<open>np.pi\<close> by \<open>pi\<close>, \<^verbatim>\<open>np.sqrt\<close> and \<^verbatim>\<open>np.cos\<close> by \<open>sqrt\<close> and \<open>cos\<close>: the model is
  the computation in exact arithmetic, without rounding, infinities or NaN. Every
  statement about \<open>get_field\<close> is a statement in exact arithmetic.

  The handler is modelled a second time in binary64 arithmetic, as \<open>get_field_f64\<close>
  (subsection \<open>The handler in binary64\<close>): there every operation rounds, and a result
  can fail to be a finite number. A third model, \<open>get_field_call\<close>, runs the statements
  of the handler one after the other on a namespace of variables.
\<close>

subsection \<open>numpy operations used by the handler\<close>

text \<open>
  \<^verbatim>\<open>np.linspace(start, stop, num)\<close> with the default \<^verbatim>\<open>endpoint=True\<close>: numpy computes
  \<^verbatim>\<open>step = (stop - start) / (num - 1)\<close>, then \<^verbatim>\<open>arange(0, num) * step + start\<close>, and
  finally overwrites the last element with \<^verbatim>\<open>stop\<close> when \<^verbatim>\<open>num > 1\<close>. With
  \<^verbatim>\<open>num = 1\<close> there is no step and the only element is \<^verbatim>\<open>0 * (stop - start) + start\<close>.
\<close>

definition linspace :: "real \<Rightarrow> real \<Rightarrow> nat \<Rightarrow> real list" where
  "linspace start stop num =
     (let dv = num - 1;
          delta = stop - start;
          y = (if dv > 0
               then map (\<lambda>k. real k * (delta / real dv) + start) [0..<num]
               else map (\<lambda>k. real k * delta + start) [0..<num])
      in if num > 1 then y[num - 1 := stop] else y)"

text \<open>
  \<^verbatim>\<open>np.meshgrid(x, y)\<close> with the default \<^verbatim>\<open>indexing='xy'\<close>: two matrices with
  \<open>length y\<close> rows and \<open>length x\<close> columns, \<open>X[i][j] = x[j]\<close> and \<open>Y[i][j] = y[i]\<close>.
  A matrix is the list of its rows.
\<close>

definition meshgrid :: "real list \<Rightarrow> real list \<Rightarrow> real list list \<times> real list list" where
  "meshgrid x y = (map (\<lambda>_. x) y, map (\<lambda>v. map (\<lambda>_. v) x) y)"

text \<open>Elementwise application of a function to one matrix, and to two of the same shape.\<close>

definition elementwise :: "(real \<Rightarrow> real) \<Rightarrow> real list list \<Rightarrow> real list list" where
  "elementwise g M = map (map g) M"

definition elementwise2 ::
  "(real \<Rightarrow> real \<Rightarrow> real) \<Rightarrow> real list list \<Rightarrow> real list list \<Rightarrow> real list list" where
  "elementwise2 g A B = map2 (map2 g) A B"

text \<open>\<^verbatim>\<open>Z.flatten().tolist()\<close>: the rows one after the other (C order).\<close>

definition flatten :: "real list list \<Rightarrow> real list" where
  "flatten M = concat M"

subsection \<open>The handler\<close>

text \<open>The JSON object the handler returns, one field per key.\<close>

record response =
  z_values :: "real list"
  resp_size :: nat
  resp_tension :: real
  resp_frequency :: real

text \<open>\<^verbatim>\<open>amplitude = 1.0 - (tension * 0.9)\<close>\<close>

definition amplitude :: "real \<Rightarrow> real" where
  "amplitude tension = 1.0 - (tension * 0.9)"

text \<open>\<^verbatim>\<open>R = np.sqrt(X**2 + Y**2)\<close>\<close>

definition radius :: "real list list \<Rightarrow> real list list \<Rightarrow> real list list" where
  "radius X Y =
     elementwise sqrt (elementwise2 (+) (elementwise (\<lambda>v. v\<^sup>2) X) (elementwise (\<lambda>v. v\<^sup>2) Y))"

text \<open>\<^verbatim>\<open>Z = amplitude * np.cos(frequency * R * np.pi)\<close>\<close>

definition wave :: "real \<Rightarrow> real \<Rightarrow> real list list \<Rightarrow> real list list" where
  "wave a frequency R = elementwise (\<lambda>r. a * cos (frequency * r * pi)) R"

definition get_field :: "real \<Rightarrow> real \<Rightarrow> response" where
  "get_field tension frequency =
     (let sz = 50;
          x = linspace (-1) 1 sz;
          y = linspace (-1) 1 sz;
          (X, Y) = meshgrid x y;
          R = radius X Y;
          Z = wave (amplitude tension) frequency R
      in \<lparr>z_values = flatten Z, resp_size = sz,
          resp_tension = tension, resp_frequency = frequency\<rparr>)"

subsection \<open>The amplitude in binary64\<close>

text \<open>
  Python's \<^verbatim>\<open>float\<close> is IEEE 754 binary64. A finite binary64 number is a rational
  \<open>m * 2^e\<close> with \<open>\<bar>m\<bar> < 2^53\<close> and \<open>-1074 \<le> e \<le> 971\<close>; a decimal literal denotes the
  binary64 number nearest to it, and \<^verbatim>\<open>*\<close> and \<^verbatim>\<open>-\<close> return the exact result rounded
  to the nearest binary64 number, a tie going to the even significand. A result whose
  rounded magnitude reaches \<open>2^1024\<close> is an infinity. Finite numbers are modelled by
  their rational value (the sign of zero is not kept); \<open>None\<close> stands for a result that
  is not finite.
\<close>

text \<open>Rounding to the nearest integer, a tie going to the even one.\<close>

definition round_half_even :: "rat \<Rightarrow> int" where
  "round_half_even q =
     (let n = \<lfloor>q\<rfloor>; r = q - of_int n
      in if r < 1 / 2 then n else if 1 / 2 < r then n + 1 else if even n then n else n + 1)"

text \<open>
  The binary exponent of a nonzero rational: the \<open>k\<close> with \<open>2^k \<le> \<bar>q\<bar> < 2^(k+1)\<close>, from
  the bit lengths of numerator and denominator.
\<close>

definition ilog2 :: "rat \<Rightarrow> int" where
  "ilog2 q =
     (let (n, d) = quotient_of \<bar>q\<bar>; k = bitlen n - bitlen d
      in if 2 powi k \<le> \<bar>q\<bar> then k else k - 1)"

text \<open>
  Rounding a rational to binary64: the significand has 53 bits above the smallest normal
  exponent \<open>-1022\<close> and fewer below it (subnormal numbers, spaced \<open>2^-1074\<close> apart).
\<close>

definition fl64 :: "rat \<Rightarrow> rat option" where
  "fl64 q =
     (if q = 0 then Some 0
      else let e = max (ilog2 q) (- 1022) - 52;
               r = of_int (round_half_even (q / 2 powi e)) * 2 powi e
           in if \<bar>r\<bar> < 2 powi 1024 then Some r else None)"

text \<open>
  \<^verbatim>\<open>amplitude = 1.0 - (tension * 0.9)\<close> on a finite binary64 \<open>tension\<close>: the literal
  \<^verbatim>\<open>0.9\<close> is rounded, then the product, then the difference.
\<close>

definition amplitude_f64 :: "rat \<Rightarrow> rat option" where
  "amplitude_f64 tension =
     (case fl64 (9 / 10) of None \<Rightarrow> None
      | Some c \<Rightarrow>
          (case fl64 (tension * c) of None \<Rightarrow> None
           | Some p \<Rightarrow> fl64 (1 - p)))"

subsection \<open>The handler in binary64\<close>

text \<open>
  A binary64 value is a finite number \<open>Some q\<close> or \<open>None\<close>, which stands for an infinity
  or a NaN. Addition, multiplication, division and square root are correctly rounded in
  IEEE 754, and none of them returns a finite number from an operand that is not finite
  (the handler never divides by an infinity).
\<close>

type_synonym f64 = "rat option"

definition add64 :: "f64 \<Rightarrow> f64 \<Rightarrow> f64" where
  "add64 a b = (case (a, b) of (Some x, Some y) \<Rightarrow> fl64 (x + y) | _ \<Rightarrow> None)"

definition mul64 :: "f64 \<Rightarrow> f64 \<Rightarrow> f64" where
  "mul64 a b = (case (a, b) of (Some x, Some y) \<Rightarrow> fl64 (x * y) | _ \<Rightarrow> None)"

definition div64 :: "f64 \<Rightarrow> f64 \<Rightarrow> f64" where
  "div64 a b =
     (case (a, b) of (Some x, Some y) \<Rightarrow> (if y = 0 then None else fl64 (x / y)) | _ \<Rightarrow> None)"

text \<open>
  The integer square root, bit by bit from the top: \<open>sqrt_bits n k r\<close> adds to \<open>r\<close> each
  power of two below \<open>2^k\<close> that keeps the square at most \<open>n\<close>.
\<close>

fun sqrt_bits :: "int \<Rightarrow> nat \<Rightarrow> int \<Rightarrow> int" where
  "sqrt_bits n 0 r = r"
| "sqrt_bits n (Suc k) r = sqrt_bits n k (if (r + 2 ^ k)\<^sup>2 \<le> n then r + 2 ^ k else r)"

definition isqrt :: "int \<Rightarrow> int" where
  "isqrt n = sqrt_bits n (nat (bitlen n)) 0"

text \<open>
  The correctly rounded square root: the exponent of the root is half the exponent of
  the argument, and the significand is the integer nearest to the scaled root, found by
  comparing the scaled argument with the square of the midpoint. The root of a finite
  number is finite; the root of a negative number is a NaN.
\<close>

definition fl64_sqrt :: "rat \<Rightarrow> f64" where
  "fl64_sqrt q =
     (if q < 0 then None
      else if q = 0 then Some 0
      else let e = max (ilog2 q div 2) (- 1022) - 52;
               t = q / 2 powi (2 * e);
               n = isqrt \<lfloor>t\<rfloor>;
               h = (of_int n + 1 / 2)\<^sup>2;
               m = (if t < h then n else if h < t then n + 1 else if even n then n else n + 1)
           in Some (of_int m * 2 powi e))"

definition sqrt64 :: "f64 \<Rightarrow> f64" where
  "sqrt64 a = (case a of Some x \<Rightarrow> fl64_sqrt x | None \<Rightarrow> None)"

text \<open>\<^verbatim>\<open>np.pi\<close> is the binary64 number \<^verbatim>\<open>0x1.921fb54442d18p+1\<close>.\<close>

definition pi64 :: rat where
  "pi64 = 884279719003555 / 2 ^ 48"

text \<open>
  \<^verbatim>\<open>np.cos\<close> is the cosine of the platform's mathematical library, which is not part
  of the repository and is not correctly rounded: on a finite argument it is the
  parameter \<open>c\<close> of the model. The cosine of an infinity or of a NaN is a NaN.
\<close>

definition cos_f64 :: "(rat \<Rightarrow> rat) \<Rightarrow> f64 \<Rightarrow> f64" where
  "cos_f64 c a = (case a of Some x \<Rightarrow> Some (c x) | None \<Rightarrow> None)"

text \<open>
  \<^verbatim>\<open>np.linspace\<close> as above, with each operation rounded: the step is \<open>delta / div\<close>,
  element \<open>k\<close> is \<open>k * step + start\<close>, the last element is \<open>stop\<close> itself.
\<close>

definition linspace_f64 :: "rat \<Rightarrow> rat \<Rightarrow> nat \<Rightarrow> f64 list" where
  "linspace_f64 start stop num =
     (let dv = num - 1;
          delta = fl64 (stop - start);
          y = (if dv > 0
               then map (\<lambda>k. add64 (mul64 (Some (of_nat k)) (div64 delta (Some (of_nat dv))))
                                  (Some start)) [0..<num]
               else map (\<lambda>k. add64 (mul64 (Some (of_nat k)) delta) (Some start)) [0..<num])
      in if num > 1 then y[num - 1 := Some stop] else y)"

definition meshgrid_f64 :: "f64 list \<Rightarrow> f64 list \<Rightarrow> f64 list list \<times> f64 list list" where
  "meshgrid_f64 x y = (map (\<lambda>_. x) y, map (\<lambda>v. map (\<lambda>_. v) x) y)"

text \<open>\<^verbatim>\<open>R = np.sqrt(X**2 + Y**2)\<close>, the square being the product of the element with itself.\<close>

definition radius_f64 :: "f64 list list \<Rightarrow> f64 list list \<Rightarrow> f64 list list" where
  "radius_f64 X Y =
     map (map sqrt64)
       (map2 (map2 add64) (map (map (\<lambda>v. mul64 v v)) X) (map (map (\<lambda>v. mul64 v v)) Y))"

text \<open>
  \<^verbatim>\<open>Z = amplitude * np.cos(frequency * R * np.pi)\<close>: Python multiplies from the left,
  \<open>(frequency * R) * np.pi\<close>.
\<close>

definition wave_f64 :: "(rat \<Rightarrow> rat) \<Rightarrow> f64 \<Rightarrow> rat \<Rightarrow> f64 list list \<Rightarrow> f64 list list" where
  "wave_f64 c a frequency R =
     map (map (\<lambda>r. mul64 a (cos_f64 c (mul64 (mul64 (Some frequency) r) (Some pi64))))) R"

record response_f64 =
  z_values_f64 :: "f64 list"
  size_f64 :: nat
  tension_f64 :: rat
  frequency_f64 :: rat

text \<open>The handler on finite binary64 inputs.\<close>

definition get_field_f64 :: "(rat \<Rightarrow> rat) \<Rightarrow> rat \<Rightarrow> rat \<Rightarrow> response_f64" where
  "get_field_f64 c tension frequency =
     (let sz = 50;
          x = linspace_f64 (-1) 1 sz;
          y = linspace_f64 (-1) 1 sz;
          (X, Y) = meshgrid_f64 x y;
          R = radius_f64 X Y;
          Z = wave_f64 c (amplitude_f64 tension) frequency R
      in \<lparr>z_values_f64 = concat Z, size_f64 = sz,
          tension_f64 = tension, frequency_f64 = frequency\<rparr>)"

subsection \<open>The endpoint\<close>

text \<open>
  Modelled from the spec: the request validation of the host framework, which is not
  code of the repository. The handler declares both query parameters as required floats
  (\<^verbatim>\<open>tension: float = Query(...)\<close>); the spec (sections 6 and 7) says that a missing or
  non-numeric value gives a request validation failure (422-equivalent) generated by the
  framework. A parameter of a request is missing, present but not numeric, or a number.
  A number is a finite binary64 number here: the texts \<^verbatim>\<open>nan\<close> and \<^verbatim>\<open>inf\<close>, which Python
  reads as floats too, are left out.
\<close>

datatype param = Missing | NonNumeric | Numeric rat

text \<open>
  The outcome of a request: the validation error (its body has a \<open>detail\<close> field only), a
  server error, or the field as the response body.
\<close>

datatype reply = Validation_Error | Server_Error | Field response_f64

fun body_z_values :: "reply \<Rightarrow> f64 list option" where
  "body_z_values (Field r) = Some (z_values_f64 r)"
| "body_z_values Validation_Error = None"
| "body_z_values Server_Error = None"

text \<open>
  The framework renders the returned dict with the JSON encoder of Python's standard
  library, called with \<^verbatim>\<open>allow_nan=False\<close>: a value that is not a finite number makes
  the encoder raise \<^verbatim>\<open>ValueError\<close>, nothing handles it, and the request ends in a server
  error (500). This step is the framework's too, and the spec does not mention it.
\<close>

definition render :: "response_f64 \<Rightarrow> reply" where
  "render r = (if None \<in> set (z_values_f64 r) then Server_Error else Field r)"

definition api_field :: "(rat \<Rightarrow> rat) \<Rightarrow> param \<Rightarrow> param \<Rightarrow> reply" where
  "api_field c tension frequency =
     (case (tension, frequency) of
        (Numeric t, Numeric f) \<Rightarrow> render (get_field_f64 c t f)
      | _ \<Rightarrow> Validation_Error)"

subsection \<open>The handler, statement by statement\<close>










section \<open>Shapes\<close>

lemma length_linspace: "length (linspace start stop num) = num"
  by (simp add: linspace_def Let_def)

lemma length_concat_uniform:
  "(\<And>r. r \<in> set M \<Longrightarrow> length r = m) \<Longrightarrow> length (concat M) = length M * m"
  by (induction M) simp_all

lemma concat_nth_uniform:
  "(\<And>r. r \<in> set M \<Longrightarrow> length r = m) \<Longrightarrow> i < length M \<Longrightarrow> j < m \<Longrightarrow>
   concat M ! (i * m + j) = M ! i ! j"
proof (induction M arbitrary: i)
  case Nil
  then show ?case by simp
next
  case (Cons r M)
  show ?case
  proof (cases i)
    case 0
    with Cons.prems show ?thesis by (simp add: nth_append)
  next
    case (Suc i')
    with Cons.prems have "concat M ! (i' * m + j) = M ! i' ! j"
      by (intro Cons.IH) auto
    with Suc Cons.prems show ?thesis by (simp add: nth_append)
  qed
qed

section \<open>The grid\<close>

text \<open>The 50 coordinates: \<open>x[k] = -1 + 2 k / 49\<close>, the last one written as \<open>stop\<close>.\<close>

lemma nth_linspace:
  assumes "k < 50"
  shows "linspace (-1) 1 50 ! k = -1 + 2 * real k / 49"
proof (cases "k = 49")
  case True
  then show ?thesis by (simp add: linspace_def Let_def)
next
  case False
  with assms show ?thesis by (simp add: linspace_def Let_def)
qed

text \<open>The radius matrix of a mesh: row \<open>i\<close> belongs to \<open>y[i]\<close>, column \<open>j\<close> to \<open>x[j]\<close>.\<close>

lemma radius_meshgrid:
  "radius (fst (meshgrid x y)) (snd (meshgrid x y)) =
   map (\<lambda>v. map (\<lambda>u. sqrt (u\<^sup>2 + v\<^sup>2)) x) y"
  by (simp add: radius_def meshgrid_def elementwise_def elementwise2_def
      zip_map_map zip_same_conv_map comp_def)

section \<open>The flattened field\<close>

lemma z_values_get_field:
  "z_values (get_field t f) =
   concat (map (\<lambda>v. map (\<lambda>u. amplitude t * cos (f * sqrt (u\<^sup>2 + v\<^sup>2) * pi))
                      (linspace (-1) 1 50)) (linspace (-1) 1 50))"
  by (simp add: get_field_def Let_def case_prod_beta radius_meshgrid wave_def elementwise_def
      flatten_def comp_def)

lemma z_values_nth:
  assumes "i < 50" "j < 50"
  shows "z_values (get_field t f) ! (i * 50 + j) =
     amplitude t *
       cos (f * sqrt ((linspace (-1) 1 50 ! j)\<^sup>2 + (linspace (-1) 1 50 ! i)\<^sup>2) * pi)"
proof -
  let ?x = "linspace (-1) 1 50"
  let ?M = "map (\<lambda>v. map (\<lambda>u. amplitude t * cos (f * sqrt (u\<^sup>2 + v\<^sup>2) * pi)) ?x) ?x"
  have "concat ?M ! (i * 50 + j) = ?M ! i ! j"
    using assms by (intro concat_nth_uniform) (auto simp: length_linspace)
  with assms show ?thesis
    by (simp add: z_values_get_field length_linspace)
qed

lemma length_z_values: "length (z_values (get_field t f)) = 2500"
proof -
  have "length (z_values (get_field t f)) = 50 * 50"
    unfolding z_values_get_field
    by (subst length_concat_uniform [where m = 50]) (auto simp: length_linspace)
  then show ?thesis by simp
qed

text \<open>
  C2. For all inputs the response has \<open>size = 50\<close> and \<open>z_values\<close> has exactly 2500
  elements.
\<close>

theorem get_field_size:
  "resp_size (get_field tension frequency) = 50 \<and>
   length (z_values (get_field tension frequency)) = 2500"
proof
  show "resp_size (get_field tension frequency) = 50"
    by (simp add: get_field_def Let_def case_prod_beta)
  show "length (z_values (get_field tension frequency)) = 2500"
    by (rule length_z_values)
qed

text \<open>
  C8. The response echoes the inputs unchanged: its \<open>tension\<close> field is the input tension
  and its \<open>frequency\<close> field is the input frequency.
\<close>

theorem get_field_echo:
  "resp_tension (get_field tension frequency) = tension \<and>
   resp_frequency (get_field tension frequency) = frequency"
  by (simp add: get_field_def Let_def case_prod_beta)

text \<open>
  C10. The field is even in the frequency: \<open>(tension, - frequency)\<close> and
  \<open>(tension, frequency)\<close> give the same \<open>z_values\<close>.
\<close>

theorem get_field_even:
  "z_values (get_field tension (- frequency)) = z_values (get_field tension frequency)"
  by (simp add: z_values_get_field)

lemma z_values_mem:
  assumes "v \<in> set (z_values (get_field t f))"
  shows "\<exists>r. v = amplitude t * cos (f * r * pi)"
  using assms unfolding z_values_get_field by auto

section \<open>The centre of the grid\<close>

text \<open>
  The grid has an even number of points per axis, so no cell is at the origin: the four
  cells nearest to it are \<open>i, j \<in> {24, 25}\<close>, at \<open>(\<plusminus>1/49, \<plusminus>1/49)\<close>.
\<close>

lemma one_minus_cos_le: "1 - cos (x::real) \<le> x\<^sup>2 / 2"
proof -
  have "\<bar>sin (x / 2)\<bar> \<le> \<bar>x / 2\<bar>" by (rule abs_sin_x_le_abs_x)
  then have "(sin (x / 2))\<^sup>2 \<le> (x / 2)\<^sup>2" by (rule abs_le_square_iff [THEN iffD1])
  moreover have "cos x = 1 - 2 * (sin (x / 2))\<^sup>2"
    using cos_double_sin [of "x / 2"] by simp
  ultimately show ?thesis by (simp add: power_divide)
qed

lemma center_radius:
  assumes "i \<in> {24, 25}" "j \<in> {24, 25::nat}"
  shows "sqrt ((linspace (-1) 1 50 ! j)\<^sup>2 + (linspace (-1) 1 50 ! i)\<^sup>2) = sqrt 2 / 49"
proof -
  have "(linspace (-1) 1 50 ! k)\<^sup>2 = 1 / 2401" if "k \<in> {24, 25::nat}" for k
    using that by (auto simp: nth_linspace power2_eq_square)
  with assms
  have "sqrt ((linspace (-1) 1 50 ! j)\<^sup>2 + (linspace (-1) 1 50 ! i)\<^sup>2) = sqrt (2 / 49\<^sup>2)"
    by simp
  also have "\<dots> = sqrt 2 / 49"
    by (simp add: real_sqrt_divide)
  finally show ?thesis .
qed

lemma radius_grid_nth:
  assumes "i < 50" "j < 50"
  shows "radius (fst (meshgrid (linspace (-1) 1 50) (linspace (-1) 1 50)))
                (snd (meshgrid (linspace (-1) 1 50) (linspace (-1) 1 50))) ! i ! j =
         sqrt ((linspace (-1) 1 50 ! j)\<^sup>2 + (linspace (-1) 1 50 ! i)\<^sup>2)"
  using assms by (simp add: radius_meshgrid length_linspace)

lemma center_z:
  assumes "i \<in> {24, 25}" "j \<in> {24, 25::nat}"
  shows "z_values (get_field t f) ! (i * 50 + j) = amplitude t * cos (f * (sqrt 2 / 49) * pi)"
proof -
  from assms have "i < 50" "j < 50" by auto
  then show ?thesis by (simp only: z_values_nth center_radius [OF assms])
qed

lemma center_deviation:
  "\<bar>a * cos (f * (sqrt 2 / 49) * pi) - a\<bar> \<le> \<bar>a\<bar> * (pi * f)\<^sup>2 / 2401"
proof -
  let ?th = "f * (sqrt 2 / 49) * pi"
  have "\<bar>a * cos ?th - a\<bar> = \<bar>a\<bar> * (1 - cos ?th)"
  proof -
    have "a * cos ?th - a = - (a * (1 - cos ?th))" by (simp add: algebra_simps)
    then have "\<bar>a * cos ?th - a\<bar> = \<bar>a\<bar> * \<bar>1 - cos ?th\<bar>" by (simp add: abs_mult)
    then show ?thesis by simp
  qed
  also have "\<dots> \<le> \<bar>a\<bar> * (?th\<^sup>2 / 2)"
    by (intro mult_left_mono one_minus_cos_le) simp
  also have "?th\<^sup>2 / 2 = (pi * f)\<^sup>2 / 2401"
    by (simp add: power_mult_distrib power_divide)
  finally show ?thesis by simp
qed

text \<open>
  C5 (as amended). In exact arithmetic, for every tension and frequency, each of the four
  centre cells \<open>i, j \<in> {24, 25}\<close> has \<open>R = sqrt 2 / 49\<close> and the value
  \<open>amplitude * cos (frequency * sqrt 2 / 49 * pi)\<close> with \<open>amplitude = 1.0 - tension * 0.9\<close>;
  it differs from the amplitude by at most \<open>\<bar>amplitude\<bar> * (pi * frequency)^2 / 2401\<close>, so it
  is close to the amplitude for small \<open>\<bar>frequency\<bar>\<close> only.
\<close>

theorem center_cells:
  "\<forall>i \<in> {24, 25}. \<forall>j \<in> {24, 25}.
     radius (fst (meshgrid (linspace (-1) 1 50) (linspace (-1) 1 50)))
            (snd (meshgrid (linspace (-1) 1 50) (linspace (-1) 1 50))) ! i ! j = sqrt 2 / 49 \<and>
     z_values (get_field tension frequency) ! (i * 50 + j) =
       amplitude tension * cos (frequency * (sqrt 2 / 49) * pi) \<and>
     \<bar>z_values (get_field tension frequency) ! (i * 50 + j) - amplitude tension\<bar>
       \<le> \<bar>amplitude tension\<bar> * (pi * frequency)\<^sup>2 / 2401"
proof (intro ballI conjI)
  fix i j :: nat
  assume ij: "i \<in> {24, 25}" "j \<in> {24, 25}"
  then have lt: "i < 50" "j < 50" by auto
  show "radius (fst (meshgrid (linspace (-1) 1 50) (linspace (-1) 1 50)))
            (snd (meshgrid (linspace (-1) 1 50) (linspace (-1) 1 50))) ! i ! j = sqrt 2 / 49"
    by (simp only: radius_grid_nth [OF lt] center_radius [OF ij])
  show "z_values (get_field tension frequency) ! (i * 50 + j) =
       amplitude tension * cos (frequency * (sqrt 2 / 49) * pi)"
    by (rule center_z [OF ij])
  show "\<bar>z_values (get_field tension frequency) ! (i * 50 + j) - amplitude tension\<bar>
       \<le> \<bar>amplitude tension\<bar> * (pi * frequency)\<^sup>2 / 2401"
    by (simp only: center_z [OF ij] center_deviation)
qed

theorem center_cells_witness:
  "radius (fst (meshgrid (linspace (-1) 1 50) (linspace (-1) 1 50)))
          (snd (meshgrid (linspace (-1) 1 50) (linspace (-1) 1 50))) ! 24 ! 25 = sqrt 2 / 49 \<and>
   z_values (get_field (1 / 2) 7) ! (24 * 50 + 25) =
     amplitude (1 / 2) * cos (7 * (sqrt 2 / 49) * pi) \<and>
   \<bar>z_values (get_field (1 / 2) 7) ! (24 * 50 + 25) - amplitude (1 / 2)\<bar>
     \<le> \<bar>amplitude (1 / 2)\<bar> * (pi * 7)\<^sup>2 / 2401"
  using center_cells [of "1 / 2" 7] by blast

text \<open>
  C5 as stated fails, in exact arithmetic already: at tension \<open>0\<close> the amplitude is
  \<open>1\<close>, and the centre cell
  \<open>i = j = 24\<close> is \<open>1\<close> at frequency \<open>0\<close> but negative at frequency \<open>35\<close>. The centre value
  depends on the frequency and need not be near the amplitude.
\<close>

theorem center_not_amplitude:
  "amplitude 0 = 1 \<and>
   z_values (get_field 0 0) ! (24 * 50 + 24) = 1 \<and>
   z_values (get_field 0 35) ! (24 * 50 + 24) < 0"
proof (intro conjI)
  show "amplitude 0 = 1" by (simp add: amplitude_def)
  show "z_values (get_field 0 0) ! (24 * 50 + 24) = 1"
    by (subst center_z) (simp_all add: amplitude_def)
  have s1: "1 < sqrt 2" by simp
  have s2: "sqrt 2 < 2" by (rule sqrt2_less_2)
  let ?d = "35 * (sqrt 2 / 49) * pi - pi"
  have "- (pi / 2) < ?d"
  proof -
    have "1 / 2 < 35 * (sqrt 2 / 49)" using s1 by linarith
    then have "pi * (1 / 2) < pi * (35 * (sqrt 2 / 49))"
      by (intro mult_strict_left_mono) simp_all
    then show ?thesis by (simp add: algebra_simps)
  qed
  moreover have "?d < pi / 2"
  proof -
    have "35 * (sqrt 2 / 49) < 3 / 2" using s2 by linarith
    then have "pi * (35 * (sqrt 2 / 49)) < pi * (3 / 2)"
      by (intro mult_strict_left_mono) simp_all
    then show ?thesis by (simp add: algebra_simps)
  qed
  ultimately have "0 < cos ?d" by (rule cos_gt_zero_pi)
  then have "cos (35 * (sqrt 2 / 49) * pi) < 0"
    by (simp only: cos_minus_pi neg_0_less_iff_less)
  then show "z_values (get_field 0 35) ! (24 * 50 + 24) < 0"
    by (subst center_z) (simp_all add: amplitude_def)
qed

section \<open>The two scenarios\<close>

lemma concat_replicate_replicate:
  "concat (replicate n (replicate m c)) = replicate (n * m) c"
  by (induction n) (simp_all add: replicate_add)

lemma z_values_flat: "z_values (get_field 1 0) = replicate 2500 (1 / 10)"
proof -
  have "z_values (get_field 1 0) = concat (replicate 50 (replicate 50 (1 / 10)))"
    by (simp add: z_values_get_field amplitude_def map_replicate_const length_linspace)
  then show ?thesis by (simp only: concat_replicate_replicate) simp
qed

lemma center_near_one:
  assumes "i \<in> {24, 25}" "j \<in> {24, 25::nat}"
  shows "\<bar>z_values (get_field 0 1) ! (i * 50 + j) - 1\<bar> < 1 / 150"
proof -
  have "pi\<^sup>2 < 4\<^sup>2"
    by (intro power_strict_mono pi_less_4) simp_all
  then have "pi\<^sup>2 / 2401 < 1 / 150" by simp
  moreover have "\<bar>1 * cos (1 * (sqrt 2 / 49) * pi) - 1\<bar> \<le> \<bar>1\<bar> * (pi * 1)\<^sup>2 / 2401"
    by (rule center_deviation)
  ultimately show ?thesis
    by (simp add: center_z [OF assms] amplitude_def)
qed

text \<open>
  C7. With tension \<open>1.0\<close> and frequency \<open>0.0\<close> every one of the 2500 values is \<open>0.1\<close> (in
  exact arithmetic: equal to \<open>1/10\<close>); with tension \<open>0.0\<close> and frequency \<open>1.0\<close> the value
  of each of the four centre cells is within \<open>1/150\<close> of \<open>1.0\<close>.
\<close>

theorem scenario_values:
  "z_values (get_field 1 0) = replicate 2500 (1 / 10) \<and>
   \<bar>z_values (get_field 0 1) ! (24 * 50 + 24) - 1\<bar> < 1 / 150 \<and>
   \<bar>z_values (get_field 0 1) ! (24 * 50 + 25) - 1\<bar> < 1 / 150 \<and>
   \<bar>z_values (get_field 0 1) ! (25 * 50 + 24) - 1\<bar> < 1 / 150 \<and>
   \<bar>z_values (get_field 0 1) ! (25 * 50 + 25) - 1\<bar> < 1 / 150"
  by (intro conjI z_values_flat center_near_one) simp_all

section \<open>Rounding to binary64\<close>

text \<open>
  What the rounding function does, for every rational: the integer rounding is off by at
  most a half, \<open>ilog2\<close> is the binary exponent, the rounded value is within half a unit
  in the last place of the exact one and has a significand of at most 53 bits, and a
  binary64 number rounds to itself.
\<close>

lemma round_half_even_error: "\<bar>of_int (round_half_even x) - x\<bar> \<le> 1 / 2"
proof -
  have "of_int \<lfloor>x\<rfloor> \<le> x" "x < of_int \<lfloor>x\<rfloor> + 1" by linarith+
  then show ?thesis
    by (auto simp: round_half_even_def Let_def abs_le_iff)
qed

lemma ilog2_bounds:
  assumes "q \<noteq> 0"
  shows "2 powi ilog2 q \<le> \<bar>q\<bar> \<and> \<bar>q\<bar> < 2 powi (ilog2 q + 1)"
proof -
  obtain n d where nd: "quotient_of \<bar>q\<bar> = (n, d)" by (cases "quotient_of \<bar>q\<bar>")
  then have d: "0 < d" and q: "\<bar>q\<bar> = of_int n / of_int d"
    by (auto dest: quotient_of_denom_pos quotient_of_div)
  from assms have "0 < \<bar>q\<bar>" by simp
  with q d have n: "0 < n" by (simp add: zero_less_divide_iff)
  define a where "a = bitlen n"
  define b where "b = bitlen d"
  have a1: "1 \<le> a" and b1: "1 \<le> b"
    using n d by (auto simp: a_def b_def bitlen_alt_def)
  have nb: "(2::rat) powi (a - 1) \<le> of_int n" "of_int n < (2::rat) powi a"
  proof -
    from bitlen_bounds [OF n] have "2 ^ nat (a - 1) \<le> n" "n < 2 ^ nat a" by (auto simp: a_def)
    then have "(of_int (2 ^ nat (a - 1)) :: rat) \<le> of_int n" "(of_int n :: rat) < of_int (2 ^ nat a)"
      by (simp_all only: of_int_le_iff of_int_less_iff)
    then show "(2::rat) powi (a - 1) \<le> of_int n" "of_int n < (2::rat) powi a"
      using a1 by (simp_all add: power_int_nonneg_exp)
  qed
  have db: "(2::rat) powi (b - 1) \<le> of_int d" "of_int d < (2::rat) powi b"
  proof -
    from bitlen_bounds [OF d] have "2 ^ nat (b - 1) \<le> d" "d < 2 ^ nat b" by (auto simp: b_def)
    then have "(of_int (2 ^ nat (b - 1)) :: rat) \<le> of_int d" "(of_int d :: rat) < of_int (2 ^ nat b)"
      by (simp_all only: of_int_le_iff of_int_less_iff)
    then show "(2::rat) powi (b - 1) \<le> of_int d" "of_int d < (2::rat) powi b"
      using b1 by (simp_all add: power_int_nonneg_exp)
  qed
  have dpos: "(0::rat) < of_int d" using d by simp
  have upper: "\<bar>q\<bar> < 2 powi (a - b + 1)"
  proof -
    have "of_int n < (2::rat) powi a" by (rule nb)
    also have "\<dots> = 2 powi (a - b + 1) * 2 powi (b - 1)"
      by (simp add: power_int_add [symmetric])
    also have "\<dots> \<le> 2 powi (a - b + 1) * of_int d"
      by (intro mult_left_mono db) simp
    finally show ?thesis using dpos by (simp add: q pos_divide_less_eq)
  qed
  have lower: "2 powi (a - b - 1) < \<bar>q\<bar>"
  proof -
    have "2 powi (a - b - 1) * of_int d < 2 powi (a - b - 1) * (2::rat) powi b"
      by (intro mult_strict_left_mono db) simp
    also have "\<dots> = 2 powi (a - 1)"
      by (simp add: power_int_add [symmetric])
    also have "\<dots> \<le> of_int n" by (rule nb)
    finally show ?thesis using dpos by (simp add: q pos_less_divide_eq)
  qed
  have il: "ilog2 q = (if 2 powi (a - b) \<le> \<bar>q\<bar> then a - b else a - b - 1)"
    by (simp add: ilog2_def nd a_def b_def Let_def)
  show ?thesis
  proof (cases "2 powi (a - b) \<le> \<bar>q\<bar>")
    case True
    with upper il show ?thesis by simp
  next
    case False
    with lower il show ?thesis by simp 
  qed
qed

lemma fl64_error:
  assumes "fl64 q = Some r"
  shows "\<bar>r - q\<bar> \<le> 2 powi (max (ilog2 q) (- 1022) - 53)"
proof (cases "q = 0")
  case True
  with assms show ?thesis by (simp add: fl64_def)
next
  case False
  define e where "e = max (ilog2 q) (- 1022) - 52"
  define m where "m = round_half_even (q / 2 powi e)"
  from assms False have r: "r = of_int m * 2 powi e"
    by (auto simp: fl64_def Let_def e_def m_def split: if_splits)
  have p: "(0::rat) < 2 powi e" by simp
  have "\<bar>r - q\<bar> = \<bar>of_int m - q / 2 powi e\<bar> * 2 powi e"
  proof -
    have "r - q = (of_int m - q / 2 powi e) * 2 powi e"
      using p by (simp add: r field_simps)
    then show ?thesis using p by (simp add: abs_mult)
  qed
  also have "\<dots> \<le> 1 / 2 * 2 powi e"
    unfolding m_def by (intro mult_right_mono round_half_even_error) simp
  also have "\<dots> = 2 powi (e - 1)"
    by (simp add: power_int_diff)
  finally show ?thesis by (simp add: e_def)
qed

lemma round_half_even_of_int: "round_half_even (of_int k) = k"
  by (simp add: round_half_even_def)

lemma ilog2_less:
  assumes "q \<noteq> 0" "\<bar>q\<bar> < 2 powi k"
  shows "ilog2 q < k"
proof (rule ccontr)
  assume "\<not> ilog2 q < k"
  then have "k \<le> ilog2 q" by simp
  then have "(2::rat) powi k \<le> 2 powi ilog2 q"
    by (intro power_int_increasing) simp_all
  also have "\<dots> \<le> \<bar>q\<bar>" using ilog2_bounds [OF assms(1)] by simp
  finally show False using assms(2) by simp
qed

lemma fl64_exact:
  assumes m: "\<bar>m\<bar> < 2 ^ 53" and e: "- 1074 \<le> e" "e \<le> 971"
  shows "fl64 (of_int m * 2 powi e) = Some (of_int m * 2 powi e)"
proof (cases "m = 0")
  case True
  then show ?thesis by (simp add: fl64_def)
next
  case False
  define q :: rat where "q = of_int m * 2 powi e"
  have q0: "q \<noteq> 0" using False by (simp add: q_def)
  have absq: "\<bar>q\<bar> = of_int \<bar>m\<bar> * 2 powi e"
    by (simp add: q_def abs_mult)
  have mr: "(of_int \<bar>m\<bar> :: rat) < 2 ^ 53"
    using m by (metis of_int_less_iff of_int_numeral of_int_power)
  have "\<bar>q\<bar> < 2 ^ 53 * 2 powi e"
    unfolding absq using mr by (intro mult_strict_right_mono) simp_all
  also have "\<dots> = 2 powi (53 + e)"
    by (simp add: power_int_add)
  finally have qlt: "\<bar>q\<bar> < 2 powi (53 + e)" .
  then have l: "ilog2 q < 53 + e" by (rule ilog2_less [OF q0])
  define e' where "e' = max (ilog2 q) (- 1022) - 52"
  have le: "e' \<le> e" using l e by (simp add: e'_def)
  have "q / 2 powi e' = of_int m * 2 powi (e - e')"
    by (simp add: q_def power_int_diff)
  also have "\<dots> = of_int (m * 2 ^ nat (e - e'))"
    using le by (simp add: power_int_nonneg_exp)
  finally have "round_half_even (q / 2 powi e') = m * 2 ^ nat (e - e')"
    by (simp only: round_half_even_of_int)
  then have r: "of_int (round_half_even (q / 2 powi e')) * 2 powi e' = q"
    using le by (simp add: q_def power_int_nonneg_exp [symmetric] power_int_add [symmetric])
  have "\<bar>q\<bar> < 2 powi 1024"
  proof -
    have "(2::rat) powi (53 + e) \<le> 2 powi 1024"
      using e by (intro power_int_increasing) simp_all
    with qlt show ?thesis by simp
  qed
  with r q0 show ?thesis
    unfolding q_def [symmetric] by (simp add: fl64_def Let_def e'_def [symmetric])
qed

lemma fl64_significand:
  assumes "fl64 q = Some r"
  shows "\<exists>m e. r = of_int m * 2 powi e \<and> \<bar>m\<bar> \<le> 2 ^ 53 \<and> - 1074 \<le> e"
proof (cases "q = 0")
  case True
  with assms have "r = of_int 0 * 2 powi 0" by (simp add: fl64_def)
  then show ?thesis by (intro exI [of _ 0] exI [of _ "0::int"]) simp
next
  case False
  define e where "e = max (ilog2 q) (- 1022) - 52"
  define m where "m = round_half_even (q / 2 powi e)"
  from assms False have r: "r = of_int m * 2 powi e"
    by (auto simp: fl64_def Let_def e_def m_def split: if_splits)
  have "\<bar>q\<bar> < 2 powi (ilog2 q + 1)" using ilog2_bounds [OF False] by simp
  also have "\<dots> \<le> 2 powi (e + 53)"
    by (intro power_int_increasing) (simp_all add: e_def)
  also have "\<dots> = 2 ^ 53 * 2 powi e" by (simp add: power_int_add)
  finally have "\<bar>q\<bar> / 2 powi e < 2 ^ 53" by (simp add: pos_divide_less_eq)
  then have x: "\<bar>q / 2 powi e\<bar> < 2 ^ 53" by simp
  have "\<bar>of_int m - q / 2 powi e\<bar> \<le> 1 / 2"
    unfolding m_def by (rule round_half_even_error)
  with x have "\<bar>of_int m :: rat\<bar> < 2 ^ 53 + 1" by linarith
  then have "(of_int \<bar>m\<bar> :: rat) < of_int (2 ^ 53 + 1)" by simp
  then have "\<bar>m\<bar> < 2 ^ 53 + 1" by (simp only: of_int_less_iff)
  then have "\<bar>m\<bar> \<le> 2 ^ 53" by simp
  moreover have "- 1074 \<le> e" by (simp add: e_def)
  ultimately show ?thesis using r by blast
qed

text \<open>Rounding is monotone: it does not cross an integer, and it overflows above \<open>2^1024\<close>.\<close>

lemma round_half_even_ge: "of_int N \<le> x \<Longrightarrow> N \<le> round_half_even x"
proof -
  assume "of_int N \<le> x"
  then have "N \<le> \<lfloor>x\<rfloor>" by (simp add: le_floor_iff)
  then show ?thesis by (auto simp: round_half_even_def Let_def)
qed

lemma round_half_even_le: "x \<le> of_int N \<Longrightarrow> round_half_even x \<le> N"
proof -
  assume x: "x \<le> of_int N"
  then have f: "\<lfloor>x\<rfloor> \<le> N" by (metis floor_mono floor_of_int)
  show ?thesis
  proof (cases "\<lfloor>x\<rfloor> = N")
    case True
    then have "of_int N \<le> x" by (metis of_int_floor_le)
    with x have "x = of_int N" by simp
    then show ?thesis by (simp add: round_half_even_def)
  next
    case False
    with f have "\<lfloor>x\<rfloor> + 1 \<le> N" by simp
    then show ?thesis by (auto simp: round_half_even_def Let_def)
  qed
qed

lemma fl64_overflow:
  assumes "2 powi 1024 \<le> \<bar>q\<bar>"
  shows "fl64 q = None"
proof -
  have pos: "(0::rat) < 2 powi 1024" by simp
  with assms have q0: "q \<noteq> 0" by auto
  define l where "l = ilog2 q"
  have lb: "2 powi l \<le> \<bar>q\<bar>" and ub: "\<bar>q\<bar> < 2 powi (l + 1)"
    using ilog2_bounds [OF q0] by (simp_all add: l_def)
  have l: "1024 \<le> l"
  proof (rule ccontr)
    assume "\<not> 1024 \<le> l"
    then have "l + 1 \<le> 1024" by simp
    then have "(2::rat) powi (l + 1) \<le> 2 powi 1024"
      by (intro power_int_increasing) simp_all
    with assms ub show False by simp
  qed
  define e where "e = max l (- 1022) - 52"
  have e: "e = l - 52" using l by (simp add: e_def)
  define m where "m = round_half_even (q / 2 powi e)"
  have p: "(0::rat) < 2 powi e" by simp
  have big: "(2::int) ^ 52 \<le> \<bar>m\<bar>"
  proof (cases "0 \<le> q")
    case True
    have "(2::rat) ^ 52 * 2 powi e = 2 powi l" by (simp add: e power_int_diff)
    also have "\<dots> \<le> q" using lb True by simp
    finally have "of_int (2 ^ 52) \<le> q / 2 powi e" using p by (simp add: pos_le_divide_eq)
    then have "2 ^ 52 \<le> m" unfolding m_def by (rule round_half_even_ge)
    then show ?thesis by simp
  next
    case False
    have "(2::rat) ^ 52 * 2 powi e = 2 powi l" by (simp add: e power_int_diff)
    also have "\<dots> \<le> - q" using lb False by simp
    finally have "q / 2 powi e \<le> of_int (- (2 ^ 52))"
      using p by (simp add: pos_divide_le_eq)
    then have "m \<le> - (2 ^ 52)" unfolding m_def by (rule round_half_even_le)
    then show ?thesis by simp
  qed
  have "(2::rat) powi 1024 \<le> 2 powi l"
    using l by (intro power_int_increasing) simp_all
  also have "\<dots> = 2 ^ 52 * 2 powi e" by (simp add: e power_int_diff)
  also have "\<dots> \<le> of_int \<bar>m\<bar> * 2 powi e"
  proof (intro mult_right_mono)
    have "(of_int (2 ^ 52) :: rat) \<le> of_int \<bar>m\<bar>" using big by (simp only: of_int_le_iff)
    then show "(2::rat) ^ 52 \<le> of_int \<bar>m\<bar>" by simp
  qed simp
  also have "\<dots> = \<bar>of_int m * 2 powi e\<bar>" by (simp add: abs_mult)
  finally have "\<not> \<bar>of_int m * 2 powi e\<bar> < (2::rat) powi 1024" by simp
  then show ?thesis
    using q0 by (simp add: fl64_def Let_def l_def [symmetric] e_def [symmetric] m_def [symmetric])
qed

lemma ilog2_mono_abs:
  assumes "q \<noteq> 0" "\<bar>q\<bar> \<le> \<bar>a\<bar>"
  shows "ilog2 q \<le> ilog2 a"
proof -
  from assms have a0: "a \<noteq> 0" by auto
  have "\<bar>q\<bar> < 2 powi (ilog2 a + 1)" using ilog2_bounds [OF a0] assms(2) by simp
  then have "ilog2 q < ilog2 a + 1" by (rule ilog2_less [OF assms(1)])
  then show ?thesis by simp
qed

lemma round_half_even_abs_le:
  assumes "\<bar>x\<bar> \<le> of_int N"
  shows "\<bar>round_half_even x\<bar> \<le> N"
proof -
  from assms have u: "x \<le> of_int N" and l: "of_int (- N) \<le> x" by simp_all
  have "round_half_even x \<le> N" using u by (rule round_half_even_le)
  moreover have "- N \<le> round_half_even x" using l by (rule round_half_even_ge)
  ultimately show ?thesis by simp
qed

text \<open>Rounding does not pass a binary64 number: it is monotone in absolute value.\<close>

lemma fl64_abs_le:
  assumes r: "fl64 q = Some r" and qa: "\<bar>q\<bar> \<le> \<bar>a\<bar>"
    and a: "a = of_int m * 2 powi e" "\<bar>m\<bar> \<le> 2 ^ 53" "- 1074 \<le> e"
  shows "\<bar>r\<bar> \<le> \<bar>a\<bar>"
proof (cases "q = 0")
  case True
  with r show ?thesis by (simp add: fl64_def)
next
  case False
  with qa have a0: "a \<noteq> 0" by auto
  define eq where "eq = max (ilog2 q) (- 1022) - 52"
  define ea where "ea = max (ilog2 a) (- 1022) - 52"
  from r False have rr: "r = of_int (round_half_even (q / 2 powi eq)) * 2 powi eq"
    by (auto simp: fl64_def Let_def eq_def split: if_splits)
  have le: "eq \<le> ea"
    using ilog2_mono_abs [OF False qa] by (simp add: eq_def ea_def)
  \<comment> \<open>\<open>a\<close> is a multiple of \<open>2^ea\<close>\<close>
  have "\<exists>N. \<bar>a\<bar> = of_int N * 2 powi ea"
  proof (cases "\<bar>m\<bar> = 2 ^ 53")
    case True
    then have abs_a: "\<bar>a\<bar> = 2 powi (53 + e)"
      by (simp add: a(1) abs_mult power_int_add)
    then have "2 powi (53 + e) \<le> \<bar>a\<bar>" "\<bar>a\<bar> < 2 powi (53 + e + 1)"
      by (simp_all add: power_int_strict_increasing)
    have "ilog2 a = 53 + e"
    proof -
      have "ilog2 a < 53 + e + 1"
        by (rule ilog2_less [OF a0]) (simp add: abs_a power_int_strict_increasing)
      moreover have "\<not> ilog2 a < 53 + e"
      proof
        assume "ilog2 a < 53 + e"
        then have "ilog2 a + 1 \<le> 53 + e" by simp
        then have "(2::rat) powi (ilog2 a + 1) \<le> 2 powi (53 + e)"
          by (intro power_int_increasing) simp_all
        with ilog2_bounds [OF a0] abs_a show False by simp
      qed
      ultimately show ?thesis by simp
    qed
    then have "ea = e + 1" using a(3) by (simp add: ea_def)
    then have "\<bar>a\<bar> = of_int (2 ^ 52) * 2 powi ea"
      by (simp add: abs_a power_int_add)
    then show ?thesis by blast
  next
    case False
    with a(2) have m: "\<bar>m\<bar> < 2 ^ 53" by simp
    then have mr: "(of_int \<bar>m\<bar> :: rat) < 2 ^ 53"
      by (metis of_int_less_iff of_int_numeral of_int_power)
    have "\<bar>a\<bar> = of_int \<bar>m\<bar> * 2 powi e" by (simp add: a(1) abs_mult)
    also have "\<dots> < 2 ^ 53 * 2 powi e"
      using mr by (intro mult_strict_right_mono) simp_all
    also have "\<dots> = 2 powi (53 + e)" by (simp add: power_int_add)
    finally have "ilog2 a < 53 + e" by (rule ilog2_less [OF a0])
    then have l: "ea \<le> e" using a(3) by (simp add: ea_def)
    have "\<bar>a\<bar> = of_int \<bar>m\<bar> * 2 powi (e - ea) * 2 powi ea"
      by (simp add: a(1) abs_mult power_int_diff)
    also have "of_int \<bar>m\<bar> * 2 powi (e - ea) = (of_int (\<bar>m\<bar> * 2 ^ nat (e - ea)) :: rat)"
      using l by (simp add: power_int_nonneg_exp)
    finally show ?thesis by blast
  qed
  then obtain N where N: "\<bar>a\<bar> = of_int N * 2 powi ea" by blast
  have "\<bar>a\<bar> = of_int N * 2 powi (ea - eq) * 2 powi eq"
    by (simp add: N power_int_diff)
  also have "of_int N * 2 powi (ea - eq) = (of_int (N * 2 ^ nat (ea - eq)) :: rat)"
    using le by (simp add: power_int_nonneg_exp)
  finally have N': "\<bar>a\<bar> = of_int (N * 2 ^ nat (ea - eq)) * 2 powi eq" .
  have p: "(0::rat) < 2 powi eq" by simp
  have "\<bar>q / 2 powi eq\<bar> = \<bar>q\<bar> / 2 powi eq" using p by simp
  also have "\<dots> \<le> \<bar>a\<bar> / 2 powi eq" using qa p by (simp add: divide_right_mono)
  also have "\<dots> = of_int (N * 2 ^ nat (ea - eq))" using p by (simp add: N')
  finally have "\<bar>round_half_even (q / 2 powi eq)\<bar> \<le> N * 2 ^ nat (ea - eq)"
    by (rule round_half_even_abs_le)
  then have "(of_int \<bar>round_half_even (q / 2 powi eq)\<bar> :: rat) \<le> of_int (N * 2 ^ nat (ea - eq))"
    by (simp only: of_int_le_iff)
  then have "of_int \<bar>round_half_even (q / 2 powi eq)\<bar> * 2 powi eq
      \<le> (of_int (N * 2 ^ nat (ea - eq)) :: rat) * 2 powi eq"
    by (intro mult_right_mono) simp_all
  also have "\<dots> = \<bar>a\<bar>" by (rule N' [symmetric])
  finally have "of_int \<bar>round_half_even (q / 2 powi eq)\<bar> * 2 powi eq \<le> \<bar>a\<bar>" .
  moreover have "\<bar>r\<bar> = of_int \<bar>round_half_even (q / 2 powi eq)\<bar> * 2 powi eq"
    by (simp add: rr abs_mult)
  ultimately show ?thesis by simp
qed

lemma fl64_nonneg:
  assumes "fl64 q = Some r" "0 \<le> q"
  shows "0 \<le> r"
proof (cases "q = 0")
  case True
  with assms show ?thesis by (simp add: fl64_def)
next
  case False
  define e where "e = max (ilog2 q) (- 1022) - 52"
  from assms False have r: "r = of_int (round_half_even (q / 2 powi e)) * 2 powi e"
    by (auto simp: fl64_def Let_def e_def split: if_splits)
  have "of_int 0 \<le> q / 2 powi e" using assms(2) by simp
  then have "0 \<le> round_half_even (q / 2 powi e)" by (rule round_half_even_ge)
  then show ?thesis by (simp add: r)
qed

text \<open>The integer square root is the floor of the root.\<close>

lemma sqrt_bits_bounds:
  "0 \<le> r \<Longrightarrow> r\<^sup>2 \<le> n \<Longrightarrow> n < (r + 2 ^ k)\<^sup>2 \<Longrightarrow>
   (sqrt_bits n k r)\<^sup>2 \<le> n \<and> n < (sqrt_bits n k r + 1)\<^sup>2"
proof (induction k arbitrary: r)
  case 0
  then show ?case by simp
next
  case (Suc k)
  show ?case
  proof (cases "(r + 2 ^ k)\<^sup>2 \<le> n")
    case True
    have "(sqrt_bits n k (r + 2 ^ k))\<^sup>2 \<le> n \<and> n < (sqrt_bits n k (r + 2 ^ k) + 1)\<^sup>2"
      using Suc.prems True by (intro Suc.IH) (simp_all add: algebra_simps)
    with True show ?thesis by simp
  next
    case False
    have "(sqrt_bits n k r)\<^sup>2 \<le> n \<and> n < (sqrt_bits n k r + 1)\<^sup>2"
      using Suc.prems False by (intro Suc.IH) simp_all
    with False show ?thesis by simp
  qed
qed

lemma isqrt_bounds:
  assumes "0 \<le> n"
  shows "(isqrt n)\<^sup>2 \<le> n \<and> n < (isqrt n + 1)\<^sup>2"
proof -
  have "n < (0 + 2 ^ nat (bitlen n))\<^sup>2"
  proof (cases "n = 0")
    case True
    then show ?thesis by simp
  next
    case False
    with assms have "0 < n" by simp
    then have "n < 2 ^ nat (bitlen n)" using bitlen_bounds by blast
    moreover have "(2::int) ^ nat (bitlen n) \<le> (2 ^ nat (bitlen n))\<^sup>2"
      by (simp add: power2_eq_square self_le_power)
    ultimately show ?thesis by simp
  qed
  with assms show ?thesis
    unfolding isqrt_def by (intro sqrt_bits_bounds) simp_all
qed

lemma sqrt_bits_nonneg: "0 \<le> r \<Longrightarrow> 0 \<le> sqrt_bits n k r"
  by (induction k arbitrary: r) simp_all

lemma isqrt_nonneg: "0 \<le> isqrt n"
  unfolding isqrt_def by (rule sqrt_bits_nonneg) simp

text \<open>
  The rounded root is within half a unit in the last place of the root: the argument
  lies between the squares of the two midpoints next to the result.
\<close>

lemma fl64_sqrt_error:
  assumes "0 < q" "fl64_sqrt q = Some r"
  shows "\<exists>m e. r = of_int m * 2 powi e \<and> 0 \<le> m \<and>
           q \<le> ((of_int m + 1 / 2) * 2 powi e)\<^sup>2 \<and>
           (m = 0 \<or> ((of_int m - 1 / 2) * 2 powi e)\<^sup>2 \<le> q)"
proof -
  define e where "e = max (ilog2 q div 2) (- 1022) - 52"
  define t where "t = q / 2 powi (2 * e)"
  define n where "n = isqrt \<lfloor>t\<rfloor>"
  define h where "h = (of_int n + 1 / 2 :: rat)\<^sup>2"
  define m where "m = (if t < h then n else if h < t then n + 1 else if even n then n else n + 1)"
  from assms have r: "r = of_int m * 2 powi e"
    by (auto simp: fl64_sqrt_def Let_def e_def t_def n_def h_def m_def)
  have p: "(0::rat) < 2 powi (2 * e)" by simp
  have tpos: "0 < t" using assms(1) p by (simp add: t_def)
  have qt: "q = t * (2 powi e)\<^sup>2"
    by (simp add: t_def power2_eq_square power_int_add [symmetric])
  have n0: "0 \<le> n" unfolding n_def by (rule isqrt_nonneg)
  have "0 \<le> \<lfloor>t\<rfloor>" using tpos by simp
  then have b: "n\<^sup>2 \<le> \<lfloor>t\<rfloor>" "\<lfloor>t\<rfloor> < (n + 1)\<^sup>2"
    using isqrt_bounds [of "\<lfloor>t\<rfloor>"] by (simp_all add: n_def)
  have lo: "(of_int n)\<^sup>2 \<le> t"
  proof -
    have "(of_int (n\<^sup>2) :: rat) \<le> of_int \<lfloor>t\<rfloor>" using b(1) by (simp only: of_int_le_iff)
    also have "\<dots> \<le> t" by simp
    finally show ?thesis by simp
  qed
  have hi: "t < (of_int n + 1)\<^sup>2"
  proof -
    from b(2) have "\<lfloor>t\<rfloor> + 1 \<le> (n + 1)\<^sup>2" by simp
    then have "(of_int (\<lfloor>t\<rfloor> + 1) :: rat) \<le> of_int ((n + 1)\<^sup>2)" by (simp only: of_int_le_iff)
    moreover have "t < of_int (\<lfloor>t\<rfloor> + 1)" by linarith
    ultimately show ?thesis by simp
  qed
  have nr: "(0::rat) \<le> of_int n" using n0 by simp
  have mn: "m = n \<or> m = n + 1" by (simp add: m_def)
  have up: "t \<le> (of_int m + 1 / 2)\<^sup>2"
  proof (cases "m = n")
    case True
    then have "\<not> h < t" by (auto simp: m_def split: if_splits)
    then show ?thesis using True by (simp add: h_def)
  next
    case False
    with mn have m: "m = n + 1" by simp
    have "(of_int n + 1 :: rat)\<^sup>2 \<le> (of_int n + 1 + 1 / 2)\<^sup>2"
      using nr by (intro power_mono) simp_all
    with hi have "t \<le> (of_int n + 1 + 1 / 2)\<^sup>2" by simp
    then show ?thesis by (simp add: m)
  qed
  have down: "m = 0 \<or> (of_int m - 1 / 2)\<^sup>2 \<le> t"
  proof (cases "m = n")
    case True
    show ?thesis
    proof (cases "n = 0")
      case True
      with \<open>m = n\<close> show ?thesis by simp
    next
      case False
      with n0 have "1 \<le> n" by simp
      then have "(1::rat) \<le> of_int n" by simp
      then have "(of_int n - 1 / 2 :: rat)\<^sup>2 \<le> (of_int n)\<^sup>2"
        by (intro power_mono) simp_all
      with lo \<open>m = n\<close> show ?thesis by simp
    qed
  next
    case False
    with mn have m: "m = n + 1" by simp
    from False have "\<not> t < h" by (auto simp: m_def split: if_splits)
    then have "h \<le> t" by simp
    moreover have "(of_int m - 1 / 2 :: rat) = of_int n + 1 / 2" by (simp add: m)
    then have "(of_int m - 1 / 2 :: rat)\<^sup>2 = h" by (simp only: h_def)
    ultimately show ?thesis by simp
  qed
  have m0: "0 \<le> m" using n0 by (simp add: m_def)
  have "q \<le> ((of_int m + 1 / 2) * 2 powi e)\<^sup>2"
    unfolding qt power_mult_distrib using up by (intro mult_right_mono) simp_all
  moreover have "m = 0 \<or> ((of_int m - 1 / 2) * 2 powi e)\<^sup>2 \<le> q"
    unfolding qt power_mult_distrib using down by (auto intro: mult_right_mono)
  ultimately show ?thesis using r m0 by blast
qed

section \<open>The amplitude at the ends of the tension range\<close>

lemma below_overflow: "\<bar>r\<bar> \<le> 1 \<Longrightarrow> \<bar>r\<bar> < (2::rat) powi 1024"
proof -
  have "(1::rat) < 2 powi 1024" by (rule one_less_power_int) simp_all
  then show "\<bar>r\<bar> \<le> 1 \<Longrightarrow> \<bar>r\<bar> < (2::rat) powi 1024" by simp
qed

text \<open>Evaluating \<open>fl64\<close> in steps: the exponent, the rounded significand, the value.\<close>

lemma fl64_eval:
  assumes "q \<noteq> 0" "ilog2 q = l" "e = max l (- 1022) - 52"
    and "round_half_even (q / 2 powi e) = m"
    and "r = of_int m * 2 powi e" "\<bar>r\<bar> \<le> 1"
  shows "fl64 q = Some r"
  using assms below_overflow [of r] by (simp add: fl64_def Let_def)

lemma fl64_zero: "fl64 0 = Some 0"
  by (simp add: fl64_def)

lemma fl64_one: "fl64 1 = Some 1"
proof (rule fl64_eval)
  show "ilog2 1 = 0" by code_simp
  show "- 52 = max 0 (- 1022) - (52::int)" by simp
  show "round_half_even (1 / 2 powi (- 52)) = 4503599627370496" by code_simp
  show "(1 :: rat) = of_int 4503599627370496 * 2 powi (- 52)"
    by (simp add: power_int_minus field_simps)
qed simp_all

text \<open>The literals \<^verbatim>\<open>0.9\<close> (\<^verbatim>\<open>0x1.ccccccccccccdp-1\<close>) and \<^verbatim>\<open>0.1\<close> (\<^verbatim>\<open>0x1.999999999999ap-4\<close>).\<close>

lemma fl64_literal_09: "fl64 (9 / 10) = Some (8106479329266893 / 2 ^ 53)"
proof (rule fl64_eval)
  show "ilog2 (9 / 10) = - 1" by code_simp
  show "- 53 = max (- 1) (- 1022) - (52::int)" by simp
  show "round_half_even (9 / 10 / 2 powi (- 53)) = 8106479329266893" by code_simp
  show "(8106479329266893 / 2 ^ 53 :: rat) = of_int 8106479329266893 * 2 powi (- 53)"
    by (simp add: power_int_minus field_simps)
qed simp_all

lemma fl64_literal_01: "fl64 (1 / 10) = Some (3602879701896397 / 2 ^ 55)"
proof (rule fl64_eval)
  show "ilog2 (1 / 10) = - 4" by code_simp
  show "- 56 = max (- 4) (- 1022) - (52::int)" by simp
  show "round_half_even (1 / 10 / 2 powi (- 56)) = 7205759403792794" by code_simp
  show "(3602879701896397 / 2 ^ 55 :: rat) = of_int 7205759403792794 * 2 powi (- 56)"
    by (simp add: power_int_minus field_simps)
qed simp_all

text \<open>\<^verbatim>\<open>1.0 * 0.9\<close> is exact, and so is \<^verbatim>\<open>1.0 - 0.9\<close>: it is \<^verbatim>\<open>0x1.9999999999998p-4\<close>.\<close>

lemma fl64_product: "fl64 (1 * (8106479329266893 / 2 ^ 53)) = Some (8106479329266893 / 2 ^ 53)"
proof (rule fl64_eval)
  show "ilog2 (1 * (8106479329266893 / 2 ^ 53)) = - 1" by code_simp
  show "- 53 = max (- 1) (- 1022) - (52::int)" by simp
  show "round_half_even (1 * (8106479329266893 / 2 ^ 53) / 2 powi (- 53)) = 8106479329266893"
    by code_simp
  show "(8106479329266893 / 2 ^ 53 :: rat) = of_int 8106479329266893 * 2 powi (- 53)"
    by (simp add: power_int_minus field_simps)
qed simp_all

lemma fl64_difference:
  "fl64 (1 - 8106479329266893 / 2 ^ 53) = Some (900719925474099 / 2 ^ 53)"
proof (rule fl64_eval)
  show "ilog2 (1 - 8106479329266893 / 2 ^ 53) = - 4" by code_simp
  show "- 56 = max (- 4) (- 1022) - (52::int)" by simp
  show "round_half_even ((1 - 8106479329266893 / 2 ^ 53) / 2 powi (- 56)) = 7205759403792792"
    by code_simp
  show "(900719925474099 / 2 ^ 53 :: rat) = of_int 7205759403792792 * 2 powi (- 56)"
    by (simp add: power_int_minus field_simps)
qed simp_all

lemma amplitude_f64_0: "amplitude_f64 0 = Some 1"
  by (simp add: amplitude_f64_def fl64_literal_09 fl64_zero fl64_one)

lemma amplitude_f64_1: "amplitude_f64 1 = Some (900719925474099 / 2 ^ 53)"
  using fl64_product fl64_difference by (simp add: amplitude_f64_def fl64_literal_09)

text \<open>
  C6 (as amended). In exact arithmetic \<open>1.0 - tension * 0.9\<close> is \<open>1\<close> at tension \<open>0\<close> and
  \<open>1/10\<close> at tension \<open>1\<close>. In the binary64 arithmetic of the handler the amplitude is
  exactly \<open>1.0\<close> at tension \<open>0.0\<close>, and at tension \<open>1.0\<close> it is \<open>900719925474099 / 2^53\<close>
  (printed \<^verbatim>\<open>0.09999999999999998\<close>), which is \<open>1 / (5 * 2^53)\<close> below \<open>1/10\<close>.
\<close>

theorem amplitude_boundary:
  "amplitude 0 = 1 \<and> amplitude 1 = 1 / 10 \<and>
   amplitude_f64 0 = Some 1 \<and>
   amplitude_f64 1 = Some (900719925474099 / 2 ^ 53) \<and>
   (1 / 10 - 900719925474099 / 2 ^ 53 :: rat) = 1 / (5 * 2 ^ 53)"
  by (simp add: amplitude_def amplitude_f64_0 amplitude_f64_1)

text \<open>
  C6 as stated fails at tension \<open>1.0\<close>: the computed amplitude is neither the number
  \<open>1/10\<close> nor the binary64 number that the literal \<^verbatim>\<open>0.1\<close> denotes.
\<close>

theorem amplitude_f64_not_tenth:
  "amplitude_f64 1 \<noteq> Some (1 / 10) \<and> amplitude_f64 1 \<noteq> fl64 (1 / 10)"
  by (simp add: amplitude_f64_1 fl64_literal_01)

section \<open>The field in binary64\<close>

lemma length_linspace_f64: "length (linspace_f64 start stop num) = num"
  by (simp add: linspace_f64_def Let_def)

lemma z_values_f64_get_field:
  "z_values_f64 (get_field_f64 c t f) =
   concat (map (\<lambda>v. map (\<lambda>u. mul64 (amplitude_f64 t)
       (cos_f64 c (mul64 (mul64 (Some f) (sqrt64 (add64 (mul64 u u) (mul64 v v)))) (Some pi64))))
                      (linspace_f64 (-1) 1 50)) (linspace_f64 (-1) 1 50))"
  by (simp add: get_field_f64_def Let_def case_prod_beta meshgrid_f64_def radius_f64_def
      wave_f64_def zip_map_map zip_map1 zip_map2 zip_same_conv_map comp_def)

lemma z_values_f64_nth:
  assumes "i < 50" "j < 50"
  shows "z_values_f64 (get_field_f64 c t f) ! (i * 50 + j) =
     mul64 (amplitude_f64 t)
       (cos_f64 c (mul64 (mul64 (Some f)
          (sqrt64 (add64 (mul64 (linspace_f64 (-1) 1 50 ! j) (linspace_f64 (-1) 1 50 ! j))
                         (mul64 (linspace_f64 (-1) 1 50 ! i) (linspace_f64 (-1) 1 50 ! i)))))
          (Some pi64)))"
proof -
  let ?x = "linspace_f64 (-1) 1 50"
  let ?M = "map (\<lambda>v. map (\<lambda>u. mul64 (amplitude_f64 t)
       (cos_f64 c (mul64 (mul64 (Some f) (sqrt64 (add64 (mul64 u u) (mul64 v v)))) (Some pi64))))
                      ?x) ?x"
  have "concat ?M ! (i * 50 + j) = ?M ! i ! j"
    using assms by (intro concat_nth_uniform) (auto simp: length_linspace_f64)
  with assms show ?thesis
    by (simp add: z_values_f64_get_field length_linspace_f64)
qed

lemma length_z_values_f64: "length (z_values_f64 (get_field_f64 c t f)) = 2500"
proof -
  have "length (z_values_f64 (get_field_f64 c t f)) = 50 * 50"
    unfolding z_values_f64_get_field
    by (subst length_concat_uniform [where m = 50]) (auto simp: length_linspace_f64)
  then show ?thesis by simp
qed

lemma nth_linspace_f64:
  assumes "k < 49"
  shows "linspace_f64 (-1) 1 50 ! k =
     add64 (mul64 (Some (of_nat k)) (div64 (fl64 2) (Some 49))) (Some (-1))"
  using assms by (simp add: linspace_f64_def Let_def)

lemma fl64_int: "\<bar>m\<bar> < 2 ^ 53 \<Longrightarrow> fl64 (of_int m) = Some (of_int m)"
  using fl64_exact [of m 0] by simp

lemma linspace_f64_first: "linspace_f64 (-1) 1 50 ! 0 = Some (-1)"
proof -
  have two: "fl64 2 = Some 2" using fl64_int [of 2] by simp
  have step: "fl64 (2 / 49) = Some (5882252574524729 / 2 ^ 57)"
  proof (rule fl64_eval)
    show "ilog2 (2 / 49) = - 5" by code_simp
    show "- 57 = max (- 5) (- 1022) - (52::int)" by simp
    show "round_half_even (2 / 49 / 2 powi (- 57)) = 5882252574524729" by code_simp
    show "(5882252574524729 / 2 ^ 57 :: rat) = of_int 5882252574524729 * 2 powi (- 57)"
      by (simp add: power_int_minus field_simps)
  qed simp_all
  have m1: "fl64 (- 1) = Some (- 1)" using fl64_int [of "- 1"] by simp
  show ?thesis
    by (simp add: nth_linspace_f64 two step div64_def mul64_def add64_def fl64_zero m1)
qed

lemma fl64_sqrt_2: "fl64_sqrt 2 = Some (6369051672525773 / 2 ^ 52)"
  by code_simp

lemma phase_overflow:
  "mul64 (mul64 (Some (2 ^ 1023)) (Some (6369051672525773 / 2 ^ 52))) (Some pi64) = None"
proof -
  have "(2 ^ 1023 * (6369051672525773 / 2 ^ 52) :: rat) = of_int 6369051672525773 * 2 powi 971"
    by (simp add: power_int_def)
  moreover have "fl64 (of_int 6369051672525773 * 2 powi 971) =
      Some (of_int 6369051672525773 * 2 powi 971)"
    by (rule fl64_exact) simp_all
  ultimately have a: "mul64 (Some (2 ^ 1023)) (Some (6369051672525773 / 2 ^ 52)) =
      Some (of_int 6369051672525773 * 2 powi 971)"
    by (simp add: mul64_def)
  have "(2::rat) powi 1024 = 2 ^ 53 * 2 powi 971"
    by (simp add: power_int_def)
  also have "\<dots> \<le> (of_int 6369051672525773 * pi64) * 2 powi 971"
    by (intro mult_right_mono) (simp_all add: pi64_def)
  also have "\<dots> = of_int 6369051672525773 * 2 powi 971 * pi64" by simp
  finally have "2 powi 1024 \<le> \<bar>of_int 6369051672525773 * 2 powi 971 * pi64\<bar>"
    by (simp add: pi64_def)
  then have "fl64 (of_int 6369051672525773 * 2 powi 971 * pi64) = None"
    by (rule fl64_overflow)
  with a show ?thesis by (simp only: mul64_def prod.case option.case)
qed

lemma corner_nan: "z_values_f64 (get_field_f64 c t (2 ^ 1023)) ! (0 * 50 + 0) = None"
proof -
  have one: "fl64 1 = Some 1" by (rule fl64_one)
  have two: "fl64 2 = Some 2" using fl64_int [of 2] by simp
  have r: "sqrt64 (add64 (mul64 (Some (- 1)) (Some (- 1))) (mul64 (Some (- 1)) (Some (- 1)))) =
      Some (6369051672525773 / 2 ^ 52)"
    by (simp add: mul64_def add64_def sqrt64_def one two fl64_sqrt_2)
  have "z_values_f64 (get_field_f64 c t (2 ^ 1023)) ! (0 * 50 + 0) =
     mul64 (amplitude_f64 t) (cos_f64 c
       (mul64 (mul64 (Some (2 ^ 1023)) (Some (6369051672525773 / 2 ^ 52))) (Some pi64)))"
    by (subst z_values_f64_nth) (simp_all only: linspace_f64_first r)
  also have "\<dots> = None"
    by (simp only: phase_overflow) (simp add: cos_f64_def mul64_def split: option.split)
  finally show ?thesis .
qed

lemma fl64_pow_1023: "fl64 (2 ^ 1023) = Some (2 ^ 1023)"
  using fl64_exact [of "2 ^ 52" 971] by (simp add: power_int_def)

lemma nan_in_field: "None \<in> set (z_values_f64 (get_field_f64 c t (2 ^ 1023)))"
proof -
  have "z_values_f64 (get_field_f64 c t (2 ^ 1023)) ! (0 * 50 + 0)
      \<in> set (z_values_f64 (get_field_f64 c t (2 ^ 1023)))"
    by (rule nth_mem) (simp add: length_z_values_f64)
  then show ?thesis by (simp only: corner_nan)
qed

lemma amplitude_f64_le_one:
  assumes a: "amplitude_f64 t = Some a" and t: "0 \<le> t" "t \<le> 1"
  shows "\<bar>a\<bar> \<le> 1"
proof -
  let ?c = "8106479329266893 / 2 ^ 53 :: rat"
  from a obtain p where p: "fl64 (t * ?c) = Some p" and ap: "fl64 (1 - p) = Some a"
    by (auto simp: amplitude_f64_def fl64_literal_09 split: option.splits)
  have c: "?c = of_int 8106479329266893 * 2 powi (- 53)"
    by (simp add: power_int_minus field_simps)
  have tc: "\<bar>t * ?c\<bar> \<le> \<bar>?c\<bar>"
    using t by (simp add: abs_mult mult_left_le_one_le)
  have "\<bar>p\<bar> \<le> \<bar>?c\<bar>"
    by (rule fl64_abs_le [OF p tc c]) simp_all
  moreover have "0 \<le> p" using p t by (intro fl64_nonneg [OF p]) simp
  ultimately have "0 \<le> p" "p \<le> 1" by simp_all
  then have p1: "\<bar>1 - p\<bar> \<le> \<bar>1::rat\<bar>" by simp
  have "\<bar>a\<bar> \<le> \<bar>1::rat\<bar>"
    by (rule fl64_abs_le [OF ap p1, where m = 1 and e = 0]) simp_all
  then show ?thesis by simp
qed

lemma z_values_f64_mem:
  assumes "v \<in> set (z_values_f64 (get_field_f64 c t f))"
  shows "\<exists>ph. v = mul64 (amplitude_f64 t) (cos_f64 c ph)"
  using assms unfolding z_values_f64_get_field by auto

lemma cell_bounded:
  assumes c: "\<forall>x. \<bar>c x\<bar> \<le> 1"
    and v: "Some v \<in> set (z_values_f64 (get_field_f64 c t f))"
  shows "\<exists>a. amplitude_f64 t = Some a \<and> \<bar>v\<bar> \<le> \<bar>a\<bar>"
proof -
  from z_values_f64_mem [OF v] obtain ph where
    "Some v = mul64 (amplitude_f64 t) (cos_f64 c ph)" by blast
  then obtain a p where a: "amplitude_f64 t = Some a" and v': "fl64 (a * c p) = Some v"
    by (auto simp: mul64_def cos_f64_def split: option.splits)
  from a obtain q where "fl64 q = Some a"
    by (auto simp: amplitude_f64_def split: option.splits)
  then obtain m e where me: "a = of_int m * 2 powi e" "\<bar>m\<bar> \<le> 2 ^ 53" "- 1074 \<le> e"
    using fl64_significand by blast
  have ac: "\<bar>a * c p\<bar> \<le> \<bar>a\<bar>"
    using c by (simp add: abs_mult mult_left_le)
  have "\<bar>v\<bar> \<le> \<bar>a\<bar>" by (rule fl64_abs_le [OF v' ac me])
  with a show ?thesis by blast
qed

text \<open>
  C1 (as amended). For all \<open>i, j\<close> in \<open>[0, 49]\<close>, element \<open>i * 50 + j\<close> of \<open>z_values\<close> belongs to
  the grid point \<open>(x[j], y[i])\<close>, row-major. In exact arithmetic it is
  \<open>(1.0 - tension * 0.9) * cos (frequency * sqrt (x[j]^2 + y[i]^2) * pi)\<close> with
  \<open>x[k] = y[k] = -1 + 2 k / 49\<close>. In the binary64 arithmetic of the code it is the same
  expression evaluated with rounding after every operation, on the coordinates that
  \<^verbatim>\<open>np.linspace\<close> computes, and not a finite number when an operation overflows.
\<close>

theorem get_field_row_major:
  "i < 50 \<Longrightarrow> j < 50 \<Longrightarrow>
   z_values (get_field tension frequency) ! (i * 50 + j) =
     (1.0 - tension * 0.9) *
       cos (frequency * sqrt ((-1 + 2 * real j / 49)\<^sup>2 + (-1 + 2 * real i / 49)\<^sup>2) * pi) \<and>
   z_values_f64 (get_field_f64 c t f) ! (i * 50 + j) =
     mul64 (amplitude_f64 t)
       (cos_f64 c (mul64 (mul64 (Some f)
          (sqrt64 (add64 (mul64 (linspace_f64 (-1) 1 50 ! j) (linspace_f64 (-1) 1 50 ! j))
                         (mul64 (linspace_f64 (-1) 1 50 ! i) (linspace_f64 (-1) 1 50 ! i)))))
          (Some pi64)))"
  by (simp add: z_values_nth nth_linspace amplitude_def z_values_f64_nth)

theorem get_field_row_major_witness:
  "z_values (get_field (1 / 2) 2) ! (3 * 50 + 7) =
     (1.0 - 1 / 2 * 0.9) *
       cos (2 * sqrt ((-1 + 2 * real 7 / 49)\<^sup>2 + (-1 + 2 * real 3 / 49)\<^sup>2) * pi) \<and>
   (\<forall>c. z_values_f64 (get_field_f64 c (1 / 2) 2) ! (3 * 50 + 7) =
     mul64 (amplitude_f64 (1 / 2))
       (cos_f64 c (mul64 (mul64 (Some 2)
          (sqrt64 (add64 (mul64 (linspace_f64 (-1) 1 50 ! 7) (linspace_f64 (-1) 1 50 ! 7))
                         (mul64 (linspace_f64 (-1) 1 50 ! 3) (linspace_f64 (-1) 1 50 ! 3)))))
          (Some pi64))))"
proof -
  have h: "(3::nat) < 50" "(7::nat) < 50" by simp_all
  show ?thesis
    by (intro conjI allI) (rule get_field_row_major [OF h, THEN conjunct1],
        rule get_field_row_major [OF h, THEN conjunct2])
qed

text \<open>
  C1 as stated fails for float inputs: the frequency \<open>2^1023\<close> (about \<^verbatim>\<open>8.99e307\<close>) is a
  finite binary64 number, and at the corner cell \<open>i = j = 0\<close>, where \<open>R\<close> is the rounded
  root of 2, the product \<open>frequency * R * np.pi\<close> overflows: the cosine of an infinity is
  a NaN, so the element is not the number that the formula gives, whatever \<^verbatim>\<open>np.cos\<close>
  returns on finite arguments.
\<close>

theorem row_major_not_binary64:
  "fl64 (2 ^ 1023) = Some (2 ^ 1023) \<and>
   (\<forall>c. z_values_f64 (get_field_f64 c 0 (2 ^ 1023)) ! (0 * 50 + 0) = None)"
  by (simp only: fl64_pow_1023 corner_nan) simp

lemma flat_corner: "z_values_f64 (get_field_f64 (\<lambda>x. 1) 1 0) ! (0 * 50 + 0) =
    Some (900719925474099 / 2 ^ 53)"
proof -
  have one: "fl64 1 = Some 1" by (rule fl64_one)
  have two: "fl64 2 = Some 2" using fl64_int [of 2] by simp
  have r: "sqrt64 (add64 (mul64 (Some (- 1)) (Some (- 1))) (mul64 (Some (- 1)) (Some (- 1)))) =
      Some (6369051672525773 / 2 ^ 52)"
    by (simp add: mul64_def add64_def sqrt64_def one two fl64_sqrt_2)
  have e: "(900719925474099 / 2 ^ 53 :: rat) = of_int 900719925474099 * 2 powi (- 53)"
    by (simp add: power_int_minus field_simps)
  have a: "fl64 (900719925474099 / 2 ^ 53) = Some (900719925474099 / 2 ^ 53)"
    unfolding e by (rule fl64_exact) simp_all
  then have a': "fl64 (900719925474099 / 9007199254740992) =
      Some (900719925474099 / 9007199254740992)"
    by simp
  have "z_values_f64 (get_field_f64 (\<lambda>x. 1) 1 0) ! (0 * 50 + 0) =
     mul64 (amplitude_f64 1) (cos_f64 (\<lambda>x. 1)
       (mul64 (mul64 (Some 0) (Some (6369051672525773 / 2 ^ 52))) (Some pi64)))"
    by (subst z_values_f64_nth) (simp_all only: linspace_f64_first r)
  also have "\<dots> = Some (900719925474099 / 2 ^ 53)"
    by (simp add: mul64_def cos_f64_def fl64_zero amplitude_f64_1 a')
  finally show ?thesis .
qed

text \<open>
  C9 (as amended). In exact arithmetic every element \<open>v\<close> of \<open>z_values\<close> satisfies
  \<open>\<bar>v\<bar> \<le> \<bar>1.0 - tension * 0.9\<bar>\<close>, and lies in \<open>[-1, 1]\<close> for a tension in \<open>[0, 1]\<close>. In the
  binary64 arithmetic of the code, given that \<^verbatim>\<open>np.cos\<close> returns values in \<open>[-1, 1]\<close>,
  every element that is a finite number is bounded by the computed amplitude, and lies
  in \<open>[-1, 1]\<close> for a tension in \<open>[0, 1]\<close>.
\<close>

theorem get_field_bounded:
  "(\<forall>v \<in> set (z_values (get_field tension frequency)).
      \<bar>v\<bar> \<le> \<bar>1.0 - tension * 0.9\<bar> \<and> (0 \<le> tension \<and> tension \<le> 1 \<longrightarrow> -1 \<le> v \<and> v \<le> 1)) \<and>
   ((\<forall>x. \<bar>c x\<bar> \<le> 1) \<longrightarrow>
      (\<forall>v. Some v \<in> set (z_values_f64 (get_field_f64 c t f)) \<longrightarrow>
         (\<exists>a. amplitude_f64 t = Some a \<and> \<bar>v\<bar> \<le> \<bar>a\<bar>) \<and>
         (0 \<le> t \<and> t \<le> 1 \<longrightarrow> -1 \<le> v \<and> v \<le> 1)))"
proof (intro conjI ballI impI allI)
  fix v assume "v \<in> set (z_values (get_field tension frequency))"
  then obtain r where v: "v = amplitude tension * cos (frequency * r * pi)"
    using z_values_mem by blast
  have "\<bar>v\<bar> = \<bar>amplitude tension\<bar> * \<bar>cos (frequency * r * pi)\<bar>"
    by (simp add: v abs_mult)
  also have "\<dots> \<le> \<bar>amplitude tension\<bar> * 1"
    by (intro mult_left_mono) simp_all
  finally show b: "\<bar>v\<bar> \<le> \<bar>1.0 - tension * 0.9\<bar>"
    by (simp add: amplitude_def)
  assume "0 \<le> tension \<and> tension \<le> 1"
  with b have "\<bar>v\<bar> \<le> 1" by (simp add: abs_le_iff)
  then show "-1 \<le> v" "v \<le> 1" by simp_all
next
  fix v assume c: "\<forall>x. \<bar>c x\<bar> \<le> 1"
    and v: "Some v \<in> set (z_values_f64 (get_field_f64 c t f))"
  from cell_bounded [OF c v]
  show a: "\<exists>a. amplitude_f64 t = Some a \<and> \<bar>v\<bar> \<le> \<bar>a\<bar>" .
  assume "0 \<le> t \<and> t \<le> 1"
  with a amplitude_f64_le_one [of t] have "\<bar>v\<bar> \<le> 1" by fastforce
  then show "-1 \<le> v" "v \<le> 1" by simp_all
qed

theorem get_field_bounded_witness:
  "\<bar>z_values (get_field (1/2) 3) ! 7\<bar> \<le> 11 / 20 \<and>
   -1 \<le> z_values (get_field (1/2) 3) ! 7 \<and> z_values (get_field (1/2) 3) ! 7 \<le> 1 \<and>
   Some (900719925474099 / 2 ^ 53) \<in> set (z_values_f64 (get_field_f64 (\<lambda>x. 1) 1 0)) \<and>
   (\<exists>a. amplitude_f64 1 = Some a \<and> \<bar>900719925474099 / 2 ^ 53\<bar> \<le> \<bar>a\<bar>) \<and>
   - 1 \<le> (900719925474099 / 2 ^ 53 :: rat) \<and> (900719925474099 / 2 ^ 53 :: rat) \<le> 1"
proof -
  have m: "z_values (get_field (1/2) 3) ! 7 \<in> set (z_values (get_field (1/2) 3))"
    by (rule nth_mem) (simp add: length_z_values)
  have "z_values_f64 (get_field_f64 (\<lambda>x. 1) 1 0) ! (0 * 50 + 0)
      \<in> set (z_values_f64 (get_field_f64 (\<lambda>x. 1) 1 0))"
    by (rule nth_mem) (simp add: length_z_values_f64)
  then have n: "Some (900719925474099 / 2 ^ 53) \<in> set (z_values_f64 (get_field_f64 (\<lambda>x. 1) 1 0))"
    by (simp only: flat_corner)
  from get_field_bounded [of "1/2" 3 "\<lambda>x. 1" 1 0] m n show ?thesis
    by fastforce
qed

text \<open>
  C9 as stated fails for float inputs: at the frequency \<open>2^1023\<close> the corner cell is a NaN,
  and a NaN satisfies no bound.
\<close>

theorem bounded_not_binary64:
  "\<forall>c. \<not> (\<forall>v \<in> set (z_values_f64 (get_field_f64 c 0 (2 ^ 1023))). \<exists>q. v = Some q \<and> \<bar>q\<bar> \<le> 1)"
proof
  fix c
  have "z_values_f64 (get_field_f64 c 0 (2 ^ 1023)) ! (0 * 50 + 0)
      \<in> set (z_values_f64 (get_field_f64 c 0 (2 ^ 1023)))"
    by (rule nth_mem) (simp add: length_z_values_f64)
  then have "None \<in> set (z_values_f64 (get_field_f64 c 0 (2 ^ 1023)))"
    by (simp only: corner_nan)
  then show "\<not> (\<forall>v \<in> set (z_values_f64 (get_field_f64 c 0 (2 ^ 1023))). \<exists>q. v = Some q \<and> \<bar>q\<bar> \<le> 1)"
    by force
qed

section \<open>Requests\<close>

text \<open>
  C3 (as amended). A request with a missing or non-numeric \<open>tension\<close> or \<open>frequency\<close>, and
  no other request, results in a validation error (422-equivalent), whose body has no
  \<open>z_values\<close> field. Validation errors are not the only error class: a request with two
  numbers ends in a server error exactly when an element of the computed field is not
  a finite number.
\<close>

theorem api_field_validation:
  "(api_field c tension frequency = Validation_Error \<longleftrightarrow>
      tension = Missing \<or> tension = NonNumeric \<or> frequency = Missing \<or> frequency = NonNumeric) \<and>
   (api_field c tension frequency = Validation_Error \<longrightarrow>
      body_z_values (api_field c tension frequency) = None) \<and>
   (\<forall>t f. api_field c (Numeric t) (Numeric f) = Server_Error \<longleftrightarrow>
      None \<in> set (z_values_f64 (get_field_f64 c t f)))"
  by (cases tension; cases frequency) (simp_all add: api_field_def render_def)

theorem api_field_validation_witness:
  "\<forall>c. api_field c Missing (Numeric (1 / 2)) = Validation_Error \<and>
       body_z_values (api_field c Missing (Numeric (1 / 2))) = None"
proof
  fix c
  from api_field_validation [of c Missing "Numeric (1 / 2)"]
  show "api_field c Missing (Numeric (1 / 2)) = Validation_Error \<and>
       body_z_values (api_field c Missing (Numeric (1 / 2))) = None"
    by simp
qed

text \<open>
  C3 as stated fails in its last part: the request \<open>tension = 0\<close>, \<open>frequency = 2^1023\<close>
  passes validation, the corner cell of the field is a NaN, and the request ends in a
  server error, which is a second error class.
\<close>

theorem server_error_class:
  "\<forall>c. api_field c (Numeric 0) (Numeric (2 ^ 1023)) = Server_Error"
proof
  fix c
  have "None \<in> set (z_values_f64 (get_field_f64 c 0 (2 ^ 1023)))" by (rule nan_in_field)
  then show "api_field c (Numeric 0) (Numeric (2 ^ 1023)) = Server_Error"
    by (simp only: api_field_def render_def prod.case param.case if_True)
qed

section \<open>No hidden state\<close>




end
